theory Spec2Isabelle
  imports Main
begin

section \<open>Message queue (utils/messageQueue.ts)\<close>

text \<open>
  The queue of the source is a mutable object with four private fields. The model is a
  record of these fields, passed through every method and returned updated. Two further
  fields make the effects of the methods visible:
  \<^item> \<open>promises\<close> counts the promises that \<open>waitForMessage\<close> has created so far; the
    resolver closure stored in \<open>waitResolve\<close> is identified by the number of its promise;
  \<^item> \<open>trace\<close> lists, in order, the calls the queue has made to closures it was given:
    the on-message callback and the stored resolver.
  The on-message callback is identified by a number as well. It is opaque: the model
  records its invocation and assumes that it does not call back into the queue.
\<close>

record ImageAttachment =
  name :: string
  mimeType :: string
  data :: string

record QueueMessage =
  message :: string
  images :: "ImageAttachment list option"

datatype queue_event =
  CallbackInvoked nat QueueMessage
  | Resolved nat "QueueMessage option"

record MessageQueue =
  queue :: "QueueMessage list"
  waitResolve :: "nat option"
  onMessageCallback :: "nat option"
  closed :: bool
  promises :: nat
  trace :: "queue_event list"

definition MessageQueue_new :: MessageQueue where
  "MessageQueue_new =
     \<lparr>queue = [], waitResolve = None, onMessageCallback = None, closed = False,
      promises = 0, trace = []\<rparr>"

definition notify_callback :: "QueueMessage \<Rightarrow> MessageQueue \<Rightarrow> MessageQueue" where
  "notify_callback queueMsg q =
     (case onMessageCallback q of
        Some cb \<Rightarrow> q\<lparr>trace := trace q @ [CallbackInvoked cb queueMsg]\<rparr>
      | None \<Rightarrow> q)"

definition push :: "string \<Rightarrow> ImageAttachment list option \<Rightarrow> MessageQueue \<Rightarrow> MessageQueue" where
  "push m imgs q =
     (if closed q then q
      else
        let queueMsg = \<lparr>message = m, images = imgs\<rparr>;
            q1 = notify_callback queueMsg q
        in (case waitResolve q1 of
              Some resolve \<Rightarrow>
                q1\<lparr>waitResolve := None, trace := trace q1 @ [Resolved resolve (Some queueMsg)]\<rparr>
            | None \<Rightarrow> q1\<lparr>queue := queue q1 @ [queueMsg]\<rparr>))"

definition pop :: "MessageQueue \<Rightarrow> QueueMessage option \<times> MessageQueue" where
  "pop q =
     (case queue q of
        m # rest \<Rightarrow> (Some m, q\<lparr>queue := rest\<rparr>)
      | [] \<Rightarrow> (None, q))"

text \<open>
  \<open>waitForMessage\<close> is an async function. Its promise is either already settled when the
  call returns (\<open>Returned\<close>: with \<open>None\<close> for null on a closed queue, or with the head of the
  queue), or it is pending and its resolver has been stored (\<open>Suspended\<close>, with the number
  of the promise). A second pending call overwrites the stored resolver.
\<close>

datatype wait_result = Returned "QueueMessage option" | Suspended nat

definition waitForMessage :: "MessageQueue \<Rightarrow> wait_result \<times> MessageQueue" where
  "waitForMessage q =
     (if closed q then (Returned None, q)
      else
        (case queue q of
           m # rest \<Rightarrow> (Returned (Some m), q\<lparr>queue := rest\<rparr>)
         | [] \<Rightarrow>
             (Suspended (promises q),
              q\<lparr>waitResolve := Some (promises q), promises := Suc (promises q)\<rparr>)))"

definition size_queue :: "MessageQueue \<Rightarrow> nat" where
  "size_queue q = length (queue q)"

definition reset :: "MessageQueue \<Rightarrow> MessageQueue" where
  "reset q =
     (let q1 = q\<lparr>queue := []\<rparr>
      in (case waitResolve q1 of
            Some resolve \<Rightarrow>
              q1\<lparr>waitResolve := None, trace := trace q1 @ [Resolved resolve None]\<rparr>
          | None \<Rightarrow> q1))"

definition setOnMessage :: "nat option \<Rightarrow> MessageQueue \<Rightarrow> MessageQueue" where
  "setOnMessage callback q = q\<lparr>onMessageCallback := callback\<rparr>"

definition close :: "MessageQueue \<Rightarrow> MessageQueue" where
  "close q = reset (q\<lparr>closed := True\<rparr>)"

subsection \<open>Sequences of calls\<close>

datatype queue_op =
  Push string "ImageAttachment list option"
  | Pop
  | WaitForMessage
  | Size
  | Reset
  | SetOnMessage "nat option"
  | Close

fun queue_step :: "queue_op \<Rightarrow> MessageQueue \<Rightarrow> MessageQueue" where
  "queue_step (Push m imgs) q = push m imgs q"
| "queue_step Pop q = snd (pop q)"
| "queue_step WaitForMessage q = snd (waitForMessage q)"
| "queue_step Size q = q"
| "queue_step Reset q = reset q"
| "queue_step (SetOnMessage cb) q = setOnMessage cb q"
| "queue_step Close q = close q"

definition queue_run :: "queue_op list \<Rightarrow> MessageQueue \<Rightarrow> MessageQueue" where
  "queue_run ops q = fold queue_step ops q"

text \<open>\<open>pushes\<close> performs the given push calls in order.\<close>

fun pushes :: "(string \<times> ImageAttachment list option) list \<Rightarrow> MessageQueue \<Rightarrow> MessageQueue" where
  "pushes [] q = q"
| "pushes ((m, imgs) # ps) q = pushes ps (push m imgs q)"

text \<open>\<open>waits n\<close> performs \<open>n\<close> calls of \<open>waitForMessage\<close> and collects what each returned.\<close>

fun waits :: "nat \<Rightarrow> MessageQueue \<Rightarrow> wait_result list \<times> MessageQueue" where
  "waits 0 q = ([], q)"
| "waits (Suc n) q =
     (let (r, q1) = waitForMessage q; (rs, q2) = waits n q1 in (r # rs, q2))"

definition mk_message :: "string \<times> ImageAttachment list option \<Rightarrow> QueueMessage" where
  "mk_message p = \<lparr>message = fst p, images = snd p\<rparr>"

text \<open>The values with which resolver \<open>r\<close> has been called, in order.\<close>

fun resolutions_of :: "nat \<Rightarrow> queue_event list \<Rightarrow> QueueMessage option list" where
  "resolutions_of r [] = []"
| "resolutions_of r (Resolved r' v # es) =
     (if r' = r then v # resolutions_of r es else resolutions_of r es)"
| "resolutions_of r (CallbackInvoked cb m # es) = resolutions_of r es"

text \<open>
  \<open>wait_then_push\<close> alternates: a call of \<open>waitForMessage\<close>, then a push, for each of the
  given messages. \<open>resolved_in_turn n ps\<close> is the trace in which the resolvers \<open>n\<close>,
  \<open>n + 1\<close>, ... are called with the messages \<open>ps\<close>, one each.
\<close>

fun wait_then_push ::
  "(string \<times> ImageAttachment list option) list \<Rightarrow> MessageQueue \<Rightarrow> MessageQueue" where
  "wait_then_push [] q = q"
| "wait_then_push ((m, imgs) # ps) q = wait_then_push ps (push m imgs (snd (waitForMessage q)))"

definition resolved_in_turn ::
  "nat \<Rightarrow> (string \<times> ImageAttachment list option) list \<Rightarrow> queue_event list" where
  "resolved_in_turn n ps =
     map (\<lambda>(r, p). Resolved r (Some (mk_message p))) (zip [n..<n + length ps] ps)"

text \<open>States of the queue that the proofs distinguish.\<close>

definition drained :: "MessageQueue \<Rightarrow> bool" where
  "drained q = (closed q \<and> queue q = [] \<and> waitResolve q = None)"

definition idle_open :: "MessageQueue \<Rightarrow> bool" where
  "idle_open q = (\<not> closed q \<and> waitResolve q = None \<and> onMessageCallback q = None)"

definition resolvers_fresh :: "MessageQueue \<Rightarrow> bool" where
  "resolvers_fresh q =
     ((\<forall>r. promises q \<le> r \<longrightarrow> resolutions_of r (trace q) = []) \<and>
      (\<forall>r. waitResolve q = Some r \<longrightarrow> r < promises q \<and> resolutions_of r (trace q) = []))"

section \<open>Session (claude/session.ts)\<close>

text \<open>
  The session owns the queue and the permission relay. Its handlers are closures that
  the launchers register; the only session state any of them touches is the queue (the
  remote launcher's switch handler resets it), so a handler is modelled by its effect on
  the queue, and each invocation is recorded. \<open>Date.now()\<close> is the parameter \<open>now\<close>, in
  milliseconds. The pending resolver of the permission wait is identified by the number
  of its promise, as in the queue. \<open>wsClient\<close> tells whether the client object exists;
  what is handed to it is recorded in \<open>events\<close>.
\<close>

datatype PermissionResponse = Yes | No | Always

record PendingPermissionResponse =
  response :: PermissionResponse
  receivedAt :: int

datatype IncomingMessage =
  UserInput string "ImageAttachment list option"
  | PermissionResponseMessage PermissionResponse
  | SwitchMessage

datatype claude_event =
  PermissionRequestEvent string string
  | ForwardedEvent string

datatype session_event =
  UserInputHandlerCalled
  | SwitchHandlerCalled
  | PermissionResponseTriggerSwitchCalled
  | PermissionResolved nat PermissionResponse
  | ClaudeEventSent claude_event
  | ActivityMarked

type_synonym handler = "(MessageQueue \<Rightarrow> MessageQueue) option"

record Session =
  serverSessionId :: string
  msgQueue :: MessageQueue
  wsClient :: bool
  userInputHandler :: handler
  switchHandler :: handler
  permissionResolver :: "nat option"
  pendingPermissionResponse :: "PendingPermissionResponse option"
  permissionResponseTriggerSwitch :: handler
  alwaysAllowedTools :: "string set"
  permissionPromises :: nat
  events :: "session_event list"

definition Session_new :: "string \<Rightarrow> Session" where
  "Session_new sid =
     \<lparr>serverSessionId = sid, msgQueue = MessageQueue_new, wsClient = False,
      userInputHandler = None, switchHandler = None, permissionResolver = None,
      pendingPermissionResponse = None, permissionResponseTriggerSwitch = None,
      alwaysAllowedTools = {}, permissionPromises = 0, events = []\<rparr>"

definition call_handler :: "handler \<Rightarrow> session_event \<Rightarrow> Session \<Rightarrow> Session" where
  "call_handler h ev s =
     (case h of
        Some f \<Rightarrow> s\<lparr>msgQueue := f (msgQueue s), events := events s @ [ev]\<rparr>
      | None \<Rightarrow> s)"

definition markActivity :: "Session \<Rightarrow> Session" where
  "markActivity s = (if wsClient s then s\<lparr>events := events s @ [ActivityMarked]\<rparr> else s)"

definition sendClaudeEvent :: "claude_event \<Rightarrow> Session \<Rightarrow> Session" where
  "sendClaudeEvent ev s =
     (if wsClient s then s\<lparr>events := events s @ [ClaudeEventSent ev]\<rparr> else s)"

definition handleMessage :: "IncomingMessage \<Rightarrow> int \<Rightarrow> Session \<Rightarrow> Session" where
  "handleMessage msg now s =
     (case msg of
        UserInput prompt imgs \<Rightarrow>
          (let s1 = s\<lparr>msgQueue := push prompt imgs (msgQueue s)\<rparr>;
               s2 = markActivity s1
           in call_handler (userInputHandler s2) UserInputHandlerCalled s2)
      | PermissionResponseMessage r \<Rightarrow>
          (case permissionResolver s of
             Some resolver \<Rightarrow>
               s\<lparr>permissionResolver := None,
                 events := events s @ [PermissionResolved resolver r]\<rparr>
           | None \<Rightarrow>
               (let s1 = s\<lparr>pendingPermissionResponse :=
                            Some \<lparr>response = r, receivedAt = now\<rparr>\<rparr>
                in call_handler (permissionResponseTriggerSwitch s1)
                     PermissionResponseTriggerSwitchCalled s1))
      | SwitchMessage \<Rightarrow> call_handler (switchHandler s) SwitchHandlerCalled s)"

definition onUserInput :: "handler \<Rightarrow> Session \<Rightarrow> Session" where
  "onUserInput h s = s\<lparr>userInputHandler := h\<rparr>"

definition onSwitch :: "handler \<Rightarrow> Session \<Rightarrow> Session" where
  "onSwitch h s = s\<lparr>switchHandler := h\<rparr>"

definition onPermissionResponseTriggerSwitch :: "handler \<Rightarrow> Session \<Rightarrow> Session" where
  "onPermissionResponseTriggerSwitch h s = s\<lparr>permissionResponseTriggerSwitch := h\<rparr>"

definition hasPendingPermissionResponse :: "Session \<Rightarrow> bool" where
  "hasPendingPermissionResponse s = (pendingPermissionResponse s \<noteq> None)"

text \<open>The parameter \<open>maxAgeMs\<close> is optional in the source and defaults to 30000.\<close>

definition maxAgeMs_or_default :: "int option \<Rightarrow> int" where
  "maxAgeMs_or_default maxAgeMs = (case maxAgeMs of Some a \<Rightarrow> a | None \<Rightarrow> 30000)"

definition consumePendingPermissionResponse ::
  "int option \<Rightarrow> int \<Rightarrow> Session \<Rightarrow> PermissionResponse option \<times> Session" where
  "consumePendingPermissionResponse maxAgeMs now s =
     (case pendingPermissionResponse s of
        None \<Rightarrow> (None, s)
      | Some pending \<Rightarrow>
          (let ageMs = now - receivedAt pending
           in if ageMs > maxAgeMs_or_default maxAgeMs
              then (None, s\<lparr>pendingPermissionResponse := None\<rparr>)
              else (Some (response pending), s\<lparr>pendingPermissionResponse := None\<rparr>)))"

definition clearPendingPermissionResponse :: "int option \<Rightarrow> int \<Rightarrow> Session \<Rightarrow> Session" where
  "clearPendingPermissionResponse maxAgeMs now s =
     (case pendingPermissionResponse s of
        None \<Rightarrow> s
      | Some pending \<Rightarrow>
          (if maxAgeMs_or_default maxAgeMs = 0 then s\<lparr>pendingPermissionResponse := None\<rparr>
           else
             (let ageMs = now - receivedAt pending
              in if ageMs > maxAgeMs_or_default maxAgeMs
                 then s\<lparr>pendingPermissionResponse := None\<rparr>
                 else s)))"

definition isToolAlwaysAllowed :: "string \<Rightarrow> Session \<Rightarrow> bool" where
  "isToolAlwaysAllowed toolName s =
     (if toolName = ''AskUserQuestion'' then False else toolName \<in> alwaysAllowedTools s)"

definition markToolAlwaysAllowed :: "string \<Rightarrow> Session \<Rightarrow> Session" where
  "markToolAlwaysAllowed toolName s =
     (if toolName = ''AskUserQuestion'' then s
      else s\<lparr>alwaysAllowedTools := insert toolName (alwaysAllowedTools s)\<rparr>)"

definition waitForPermissionResponse :: "Session \<Rightarrow> nat \<times> Session" where
  "waitForPermissionResponse s =
     (permissionPromises s,
      s\<lparr>permissionResolver := Some (permissionPromises s),
        permissionPromises := Suc (permissionPromises s)\<rparr>)"

subsection \<open>The remote launcher's permission-request handler (claude/claudeRemoteLauncher.ts)\<close>

text \<open>
  The closure \<open>onPermissionRequest\<close> that the remote launcher hands to the remote driver.
  The tool input is carried as text.
\<close>

definition onPermissionRequest :: "string \<Rightarrow> string \<Rightarrow> int \<Rightarrow> Session \<Rightarrow> Session" where
  "onPermissionRequest toolName toolInput now s =
     (if isToolAlwaysAllowed toolName s then s
      else
        (let s1 = clearPendingPermissionResponse (Some 0) now s;
             s2 = (if toolName = ''AskUserQuestion''
                   then s1\<lparr>msgQueue := reset (msgQueue s1)\<rparr> else s1)
         in sendClaudeEvent (PermissionRequestEvent toolName toolInput) s2))"

section \<open>Session scanner (claude/sessionScanner.ts)\<close>

text \<open>
  A transcript entry that passed the schema is one of four kinds. Each carries the fields
  that \<open>messageKey\<close> reads and, as text, the rest of the record. A line of the log file
  is blank, not JSON, an internal event, a record the schema rejects, or an entry. The
  file system is a function from session identifiers to the lines of the session's file,
  \<open>None\<close> when the file does not exist or cannot be read.
\<close>

datatype RawJSONLines =
  UserEntry string string
  | AssistantEntry string string
  | SystemEntry string string
  | SummaryEntry string string

fun messageKey :: "RawJSONLines \<Rightarrow> string" where
  "messageKey (UserEntry uuid rest) = uuid"
| "messageKey (AssistantEntry uuid rest) = uuid"
| "messageKey (SummaryEntry leafUuid summary) = ''summary:'' @ leafUuid @ '':'' @ summary"
| "messageKey (SystemEntry uuid rest) = uuid"

fun is_assistant :: "RawJSONLines \<Rightarrow> bool" where
  "is_assistant (AssistantEntry uuid rest) = True"
| "is_assistant e = False"

datatype log_line =
  BlankLine
  | MalformedLine
  | InternalEventLine
  | RejectedRecord
  | EntryLine RawJSONLines

type_synonym session_files = "string \<Rightarrow> log_line list option"

fun parse_lines :: "log_line list \<Rightarrow> RawJSONLines list" where
  "parse_lines [] = []"
| "parse_lines (EntryLine e # ls) = e # parse_lines ls"
| "parse_lines (l # ls) = parse_lines ls"

definition readSessionLog :: "session_files \<Rightarrow> string \<Rightarrow> RawJSONLines list" where
  "readSessionLog files sid = (case files sid of None \<Rightarrow> [] | Some ls \<Rightarrow> parse_lines ls)"

text \<open>
  The scanner's closure variables, with the calls made to \<open>opts.onMessage\<close>
  (\<open>forwarded\<close>, in order) and the number of calls made to \<open>opts.onIdle\<close>. \<open>watching\<close> is
  the session whose file the watcher is on, \<open>syncTimeout\<close> tells whether a debounced sync
  is scheduled.
\<close>

record SessionScanner =
  processedMessageKeys :: "string set"
  currentSessionId :: "string option"
  watching :: "string option"
  syncTimeout :: bool
  hasOnIdle :: bool
  forwarded :: "RawJSONLines list"
  idleCalls :: nat

text \<open>
  A session identifier of type \<open>string | null\<close> is tested for truthiness in the source:
  null and the empty string both count as no identifier.
\<close>

definition truthy :: "string option \<Rightarrow> bool" where
  "truthy v = (case v of None \<Rightarrow> False | Some s \<Rightarrow> s \<noteq> [])"

text \<open>The loop of \<open>sync\<close> over the entries read, with the flag \<open>sawAssistantMessage\<close>.\<close>

fun sync_entries :: "RawJSONLines list \<Rightarrow> SessionScanner \<Rightarrow> bool \<Rightarrow> SessionScanner \<times> bool" where
  "sync_entries [] sc sawAssistantMessage = (sc, sawAssistantMessage)"
| "sync_entries (e # es) sc sawAssistantMessage =
     (if messageKey e \<in> processedMessageKeys sc then sync_entries es sc sawAssistantMessage
      else
        sync_entries es
          (sc\<lparr>processedMessageKeys := insert (messageKey e) (processedMessageKeys sc),
              forwarded := forwarded sc @ [e]\<rparr>)
          (if is_assistant e then True else sawAssistantMessage))"

definition sync :: "session_files \<Rightarrow> SessionScanner \<Rightarrow> SessionScanner" where
  "sync files sc =
     (case currentSessionId sc of
        None \<Rightarrow> sc
      | Some sid \<Rightarrow>
          (if sid = [] then sc
           else
             (let (sc1, sawAssistantMessage) = sync_entries (readSessionLog files sid) sc False
              in if sawAssistantMessage \<and> hasOnIdle sc1
                 then sc1\<lparr>idleCalls := Suc (idleCalls sc1)\<rparr> else sc1)))"

definition scheduleSync :: "SessionScanner \<Rightarrow> SessionScanner" where
  "scheduleSync sc = sc\<lparr>syncTimeout := True\<rparr>"

definition createSessionScanner :: "string option \<Rightarrow> bool \<Rightarrow> session_files \<Rightarrow> SessionScanner" where
  "createSessionScanner sid onIdle files =
     \<lparr>processedMessageKeys =
        (case sid of
           None \<Rightarrow> {}
         | Some i \<Rightarrow> (if i = [] then {} else messageKey ` set (readSessionLog files i))),
      currentSessionId = sid,
      watching = (if truthy sid then sid else None),
      syncTimeout = False,
      hasOnIdle = onIdle,
      forwarded = [],
      idleCalls = 0\<rparr>"

definition onNewSession :: "string \<Rightarrow> SessionScanner \<Rightarrow> SessionScanner" where
  "onNewSession sid sc =
     (if Some sid = currentSessionId sc then sc
      else scheduleSync (sc\<lparr>currentSessionId := Some sid, watching := Some sid\<rparr>))"

text \<open>
  What happens to a scanner: a sync pass runs (the debounce timer fired) and reads the
  files as they are then, or a new session is announced.
\<close>

datatype scanner_op = SyncPass session_files | NewSession string

fun scanner_step :: "scanner_op \<Rightarrow> SessionScanner \<Rightarrow> SessionScanner" where
  "scanner_step (SyncPass files) sc = sync files (sc\<lparr>syncTimeout := False\<rparr>)"
| "scanner_step (NewSession sid) sc = onNewSession sid sc"

definition scanner_run :: "scanner_op list \<Rightarrow> SessionScanner \<Rightarrow> SessionScanner" where
  "scanner_run ops sc = fold scanner_step ops sc"

definition forwarded_once :: "SessionScanner \<Rightarrow> bool" where
  "forwarded_once sc =
     (distinct (map messageKey (forwarded sc)) \<and>
      messageKey ` set (forwarded sc) \<subseteq> processedMessageKeys sc)"

text \<open>
  For the proofs: the entries of a list that a sync pass forwards when the keys \<open>seen\<close>
  have been processed, and what a scanner has forwarded since an earlier state.
\<close>

fun fresh_entries :: "RawJSONLines list \<Rightarrow> string set \<Rightarrow> RawJSONLines list" where
  "fresh_entries [] seen = []"
| "fresh_entries (e # es) seen =
     (if messageKey e \<in> seen then fresh_entries es seen
      else e # fresh_entries es (insert (messageKey e) seen))"

definition forwarded_since :: "SessionScanner \<Rightarrow> SessionScanner \<Rightarrow> RawJSONLines list" where
  "forwarded_since sc sc' = drop (length (forwarded sc)) (forwarded sc')"

section \<open>WebSocket client (api/wsClient.ts)\<close>

text \<open>
  The closure variables of \<open>createWSClient\<close> that the socket's handlers read and write.
  \<open>pingInterval\<close> and \<open>closeHandler\<close> tell whether the variable holds a value. Each
  handler returns the new state and what it did: \<open>ScheduleConnect d\<close> stands for
  \<open>setTimeout(connect, d)\<close>, with \<open>d\<close> in milliseconds.
\<close>

record WSClient =
  reconnectAttempts :: nat
  isIntentionallyClosed :: bool
  clientResolved :: bool
  pingInterval :: bool
  closeHandler :: bool

datatype ws_effect =
  ResolveClient
  | RejectClient
  | ScheduleConnect nat
  | CloseHandlerCalled
  | SocketClose

definition maxReconnects :: nat where
  "maxReconnects = 50"

definition WSClient_new :: WSClient where
  "WSClient_new =
     \<lparr>reconnectAttempts = 0, isIntentionallyClosed = False, clientResolved = False,
      pingInterval = False, closeHandler = False\<rparr>"

definition call_closeHandler :: "WSClient \<Rightarrow> ws_effect list" where
  "call_closeHandler c = (if closeHandler c then [CloseHandlerCalled] else [])"

definition ws_on_open :: "WSClient \<Rightarrow> WSClient \<times> ws_effect list" where
  "ws_on_open c =
     (c\<lparr>reconnectAttempts := 0, pingInterval := True, clientResolved := True\<rparr>,
      if \<not> clientResolved c then [ResolveClient] else [])"

definition ws_on_close :: "WSClient \<Rightarrow> WSClient \<times> ws_effect list" where
  "ws_on_close c =
     (let c1 = c\<lparr>pingInterval := False\<rparr>
      in if isIntentionallyClosed c1 then (c1, call_closeHandler c1)
         else if reconnectAttempts c1 < maxReconnects
         then
           (let c2 = c1\<lparr>reconnectAttempts := reconnectAttempts c1 + 1\<rparr>;
                delay = min (1000 * reconnectAttempts c2) 10000
            in (c2, [ScheduleConnect delay]))
         else (c1, call_closeHandler c1))"

definition ws_on_error :: "WSClient \<Rightarrow> WSClient \<times> ws_effect list" where
  "ws_on_error c = (c, if \<not> clientResolved c then [RejectClient] else [])"

definition ws_onClose :: "WSClient \<Rightarrow> WSClient \<times> ws_effect list" where
  "ws_onClose c = (c\<lparr>closeHandler := True\<rparr>, [])"

definition ws_close :: "WSClient \<Rightarrow> WSClient \<times> ws_effect list" where
  "ws_close c = (c\<lparr>isIntentionallyClosed := True\<rparr>, [SocketClose])"

datatype ws_event = SocketOpened | SocketClosed | SocketError | OnCloseRegistered | CloseCalled

fun ws_step :: "ws_event \<Rightarrow> WSClient \<Rightarrow> WSClient \<times> ws_effect list" where
  "ws_step SocketOpened c = ws_on_open c"
| "ws_step SocketClosed c = ws_on_close c"
| "ws_step SocketError c = ws_on_error c"
| "ws_step OnCloseRegistered c = ws_onClose c"
| "ws_step CloseCalled c = ws_close c"

fun ws_run :: "ws_event list \<Rightarrow> WSClient \<Rightarrow> WSClient \<times> ws_effect list" where
  "ws_run [] c = (c, [])"
| "ws_run (e # es) c =
     (let (c1, out1) = ws_step e c; (c2, out2) = ws_run es c1 in (c2, out1 @ out2))"

fun is_schedule :: "ws_effect \<Rightarrow> bool" where
  "is_schedule (ScheduleConnect d) = True"
| "is_schedule e = False"

section \<open>Remote driver (claude/claudeRemote.ts)\<close>

text \<open>
  \<open>claudeRemote\<close> picks the session to resume, waits for the first message and runs the
  query loop inside a try block. The loop itself talks to the SDK; what this function
  sees of it is whether a call of \<open>runQuery\<close> returns (then with its resume target) or
  throws. The environment gives that outcome for the first and for the second call,
  whether the session file exists, what \<open>nextMessage\<close> returns first, and the value of
  \<open>abort.aborted\<close> when the catch block reads it. The result carries the calls made to
  \<open>runQuery\<close>, in order. The thinking-state callbacks are left out.
\<close>

datatype query_outcome = QueryReturns | QueryThrows

datatype remote_error = QueryFailed

record RemoteEnv =
  sessionExists :: "string \<Rightarrow> bool"
  firstNextMessage :: "QueueMessage option"
  firstQuery :: query_outcome
  secondQuery :: query_outcome
  aborted :: bool

record ClaudeRemoteOptions =
  sessionId :: "string option"
  claudeArgs :: "string list option"

record RemoteRun =
  returned :: "remote_error + string option"
  runQueryCalls :: "(string option \<times> QueueMessage) list"

fun startsWith_dash :: "string \<Rightarrow> bool" where
  "startsWith_dash [] = False"
| "startsWith_dash (c # cs) = (c = CHR ''-'')"

fun resume_from_args :: "string list \<Rightarrow> string option \<Rightarrow> string option" where
  "resume_from_args (arg # nextArg # args) startFrom =
     resume_from_args (nextArg # args)
       (if arg = ''--resume'' \<and> \<not> startsWith_dash nextArg \<and> CHR ''-'' \<in> set nextArg
        then Some nextArg else startFrom)"
| "resume_from_args args startFrom = startFrom"

definition resolve_startFrom :: "ClaudeRemoteOptions \<Rightarrow> RemoteEnv \<Rightarrow> string option" where
  "resolve_startFrom opts env =
     (let startFrom0 = sessionId opts;
          startFrom1 =
            (case claudeArgs opts of
               Some args \<Rightarrow>
                 (if \<not> truthy startFrom0 then resume_from_args args startFrom0 else startFrom0)
             | None \<Rightarrow> startFrom0)
      in case startFrom1 of
           Some sid \<Rightarrow> (if sid \<noteq> [] \<and> \<not> sessionExists env sid then None else startFrom1)
         | None \<Rightarrow> None)"

definition runQuery ::
  "query_outcome \<Rightarrow> string option \<Rightarrow> QueueMessage \<Rightarrow> remote_error + string option" where
  "runQuery outcome sessionToResume initialMessage =
     (case outcome of
        QueryReturns \<Rightarrow> Inr sessionToResume
      | QueryThrows \<Rightarrow> Inl QueryFailed)"

definition claudeRemote :: "ClaudeRemoteOptions \<Rightarrow> RemoteEnv \<Rightarrow> RemoteRun" where
  "claudeRemote opts env =
     (let startFrom = resolve_startFrom opts env
      in case firstNextMessage env of
           None \<Rightarrow> \<lparr>returned = Inr startFrom, runQueryCalls = []\<rparr>
         | Some firstMessage \<Rightarrow>
             (case runQuery (firstQuery env) startFrom firstMessage of
                Inr r \<Rightarrow> \<lparr>returned = Inr r, runQueryCalls = [(startFrom, firstMessage)]\<rparr>
              | Inl e \<Rightarrow>
                  (if truthy startFrom \<and> \<not> aborted env
                   then
                     (case runQuery (secondQuery env) None firstMessage of
                        Inr r \<Rightarrow>
                          \<lparr>returned = Inr r,
                           runQueryCalls = [(startFrom, firstMessage), (None, firstMessage)]\<rparr>
                      | Inl e2 \<Rightarrow>
                          \<lparr>returned = Inr startFrom,
                           runQueryCalls = [(startFrom, firstMessage), (None, firstMessage)]\<rparr>)
                   else \<lparr>returned = Inr startFrom,
                         runQueryCalls = [(startFrom, firstMessage)]\<rparr>)))"

section \<open>Hook receiver (hooks/hookServer.ts)\<close>

text \<open>
  A request as the handler sees it: its method, its URL, what reading the body gives, and
  whether the 5000 ms timer fires before the body has been read. \<open>JSON.parse\<close> of the
  body throws (\<open>Malformed\<close>), or gives an object, of which the handler reads three
  fields, or null, or another value (a number, a string, a boolean, an array), on which
  every field read gives undefined. The two callbacks of the server's options are given by
  their outcome on the arguments they are called with: they return or throw. The calls
  made to them are recorded.
\<close>

datatype json_field =
  Undefined
  | JString string
  | JNumber int
  | JBool bool
  | JNull
  | JComposite

fun truthy_field :: "json_field \<Rightarrow> bool" where
  "truthy_field Undefined = False"
| "truthy_field (JString s) = (s \<noteq> [])"
| "truthy_field (JNumber n) = (n \<noteq> 0)"
| "truthy_field (JBool b) = b"
| "truthy_field JNull = False"
| "truthy_field JComposite = True"

datatype parsed_body =
  Malformed
  | JsonObject json_field json_field json_field
  | JsonNull
  | JsonOther

datatype body_read = BodyComplete parsed_body | BodyStreamError | BodyNeverEnds

record HookRequest =
  req_method :: string
  req_url :: string
  req_body :: body_read
  timerFired :: bool

datatype hook_callback =
  SessionHookCalled json_field
  | HookEventCalled json_field json_field

record HookResult =
  status :: "(nat \<times> string) option"
  callbacks :: "hook_callback list"

datatype hook_error = TypeError | HeadersAlreadySent | StreamError | CallbackError

datatype callback_outcome = CallbackReturns | CallbackThrows

record HookServerOptions =
  onSessionHook :: "json_field \<Rightarrow> parsed_body \<Rightarrow> callback_outcome"
  onHookEvent :: "(json_field \<Rightarrow> json_field \<Rightarrow> parsed_body \<Rightarrow> callback_outcome) option"

text \<open>
  \<open>res.writeHead(code).end(text)\<close> throws once the headers have been sent; the timer and
  the catch block test \<open>res.headersSent\<close> first.
\<close>

definition headersSent :: "HookResult \<Rightarrow> bool" where
  "headersSent res = (status res \<noteq> None)"

definition writeHead :: "nat \<Rightarrow> string \<Rightarrow> HookResult \<Rightarrow> hook_error + HookResult" where
  "writeHead code text res =
     (if headersSent res then Inl HeadersAlreadySent
      else Inr (res\<lparr>status := Some (code, text)\<rparr>))"

definition writeHead_unless_sent :: "nat \<Rightarrow> string \<Rightarrow> HookResult \<Rightarrow> HookResult" where
  "writeHead_unless_sent code text res =
     (if \<not> headersSent res then res\<lparr>status := Some (code, text)\<rparr> else res)"

text \<open>
  The part of the try block after the body has been read: parse, call the callbacks,
  answer 200. Each step returns the state reached and the error thrown, if any; an error
  ends the block.
\<close>

definition call_onSessionHook ::
  "HookServerOptions \<Rightarrow> json_field \<Rightarrow> parsed_body \<Rightarrow> HookResult \<Rightarrow>
   HookResult \<times> hook_error option" where
  "call_onSessionHook options sid parsed res =
     (res\<lparr>callbacks := callbacks res @ [SessionHookCalled sid]\<rparr>,
      case onSessionHook options sid parsed of
        CallbackReturns \<Rightarrow> None
      | CallbackThrows \<Rightarrow> Some CallbackError)"

definition call_onHookEvent ::
  "HookServerOptions \<Rightarrow> json_field \<Rightarrow> json_field \<Rightarrow> parsed_body \<Rightarrow> HookResult \<Rightarrow>
   HookResult \<times> hook_error option" where
  "call_onHookEvent options eventType sid parsed res =
     (case onHookEvent options of
        None \<Rightarrow> (res, None)
      | Some f \<Rightarrow>
          (if truthy_field eventType
           then
             (res\<lparr>callbacks := callbacks res @ [HookEventCalled eventType sid]\<rparr>,
              case f eventType sid parsed of
                CallbackReturns \<Rightarrow> None
              | CallbackThrows \<Rightarrow> Some CallbackError)
           else (res, None)))"

definition call_hooks ::
  "string \<Rightarrow> HookServerOptions \<Rightarrow> parsed_body \<Rightarrow> HookResult \<Rightarrow>
   HookResult \<times> hook_error option" where
  "call_hooks reqUrl options parsed res =
     (case parsed of
        JsonNull \<Rightarrow> (res, Some TypeError)
      | JsonObject session_id sessionId' hook_event_name \<Rightarrow>
          (let sid = (if truthy_field session_id then session_id else sessionId');
               eventType = hook_event_name
           in if truthy_field sid
              then
                (case
                   (if eventType = JString ''SessionStart'' \<or> reqUrl = ''/hook/session-start''
                    then call_onSessionHook options sid parsed res else (res, None))
                 of
                   (res1, Some e) \<Rightarrow> (res1, Some e)
                 | (res1, None) \<Rightarrow> call_onHookEvent options eventType sid parsed res1)
              else (res, None))
      | Malformed \<Rightarrow> (res, None)
      | JsonOther \<Rightarrow> (res, None))"

definition try_block ::
  "string \<Rightarrow> HookServerOptions \<Rightarrow> body_read \<Rightarrow> HookResult \<Rightarrow>
   HookResult \<times> hook_error option" where
  "try_block reqUrl options b res =
     (case b of
        BodyNeverEnds \<Rightarrow> (res, None)
      | BodyStreamError \<Rightarrow> (res, Some StreamError)
      | BodyComplete parsed \<Rightarrow>
          (case call_hooks reqUrl options parsed res of
             (res1, Some e) \<Rightarrow> (res1, Some e)
           | (res1, None) \<Rightarrow>
               (case writeHead 200 ''ok'' res1 of
                  Inl e \<Rightarrow> (res1, Some e)
                | Inr res2 \<Rightarrow> (res2, None))))"

definition handle_request :: "HookServerOptions \<Rightarrow> HookRequest \<Rightarrow> HookResult" where
  "handle_request options req =
     (let res0 = \<lparr>status = None, callbacks = []\<rparr>
      in if req_method req = ''POST'' \<and>
            (req_url req = ''/hook'' \<or> req_url req = ''/hook/session-start'')
         then
           (let res1 =
                  (if timerFired req \<or> req_body req = BodyNeverEnds
                   then writeHead_unless_sent 408 ''timeout'' res0 else res0)
            in case try_block (req_url req) options (req_body req) res1 of
                 (res2, None) \<Rightarrow> res2
               | (res2, Some e) \<Rightarrow> writeHead_unless_sent 500 ''error'' res2)
         else (case writeHead 404 ''not found'' res0 of Inr r \<Rightarrow> r | Inl e \<Rightarrow> res0))"


definition quiet_options :: HookServerOptions where
  "quiet_options =
     \<lparr>onSessionHook = (\<lambda>sid d. CallbackReturns),
      onHookEvent = Some (\<lambda>e sid d. CallbackReturns)\<rparr>"




section \<open>Properties of the message queue\<close>

lemma resolutions_of_append:
  "resolutions_of r (xs @ ys) = resolutions_of r xs @ resolutions_of r ys"
  by (induction r xs rule: resolutions_of.induct) auto

subsection \<open>A closed queue\<close>

lemma push_closed: "closed q \<Longrightarrow> push m imgs q = q"
  by (simp add: push_def)

lemma waitForMessage_closed: "closed q \<Longrightarrow> waitForMessage q = (Returned None, q)"
  by (simp add: waitForMessage_def)

lemma drained_close: "drained (close q)"
  by (simp add: drained_def close_def reset_def Let_def split: option.splits)

lemma drained_step: "drained q \<Longrightarrow> drained (queue_step x q) \<and> trace (queue_step x q) = trace q"
  by (cases x)
     (auto simp: drained_def push_def pop_def waitForMessage_def reset_def close_def
        setOnMessage_def Let_def)

lemma drained_run: "drained q \<Longrightarrow> drained (queue_run ops q) \<and> trace (queue_run ops q) = trace q"
  unfolding queue_run_def
proof (induction ops arbitrary: q)
  case Nil
  then show ?case by simp
next
  case (Cons x ops)
  from Cons.prems have d: "drained (queue_step x q)" and t: "trace (queue_step x q) = trace q"
    using drained_step by blast+
  from Cons.IH [OF d] t show ?case by simp
qed

text \<open>
  Claim C10. After \<open>close()\<close> the queue is drained and inert. Whatever calls follow
  (\<open>ops\<close>), the queue stays closed, its size stays 0, no waiter is stored and nothing is
  added to the trace: no resolver and no callback is called. A further \<open>push\<close> leaves the
  whole state as it is, and a further \<open>waitForMessage\<close> returns null at once and leaves
  the state as it is.
\<close>

theorem closed_queue_inert:
  "closed (queue_run ops (close q)) \<and>
   size_queue (queue_run ops (close q)) = 0 \<and>
   waitResolve (queue_run ops (close q)) = None \<and>
   trace (queue_run ops (close q)) = trace (close q) \<and>
   push m imgs (queue_run ops (close q)) = queue_run ops (close q) \<and>
   waitForMessage (queue_run ops (close q)) = (Returned None, queue_run ops (close q))"
  using drained_run [OF drained_close, of ops q]
  by (simp add: drained_def size_queue_def push_closed waitForMessage_closed)

subsection \<open>Reset\<close>

text \<open>
  In every state reached from a new queue, a resolver that has not been created yet has
  not been called, and the stored resolver has not been called either.
\<close>

lemma resolvers_fresh_new: "resolvers_fresh MessageQueue_new"
  by (simp add: resolvers_fresh_def MessageQueue_new_def)

lemma resolvers_fresh_step: "resolvers_fresh q \<Longrightarrow> resolvers_fresh (queue_step x q)"
  by (cases x)
     (auto simp: resolvers_fresh_def push_def pop_def waitForMessage_def reset_def close_def
        setOnMessage_def notify_callback_def Let_def resolutions_of_append
        split: option.splits list.splits)

lemma resolvers_fresh_run: "resolvers_fresh q \<Longrightarrow> resolvers_fresh (queue_run ops q)"
  unfolding queue_run_def
  by (induction ops arbitrary: q) (simp_all add: resolvers_fresh_step)

text \<open>
  Claim C5. Let \<open>q\<close> be any state reached from a new queue. If a wait is suspended in
  \<open>q\<close>, with resolver \<open>r\<close>, then \<open>reset\<close> calls \<open>r\<close> with null and adds nothing else to the
  trace, after it \<open>r\<close> has been called exactly once, no resolver is stored, the queue is
  empty, and a second \<open>reset\<close> changes nothing. If no wait is suspended, \<open>reset\<close> only
  empties the queue.
\<close>

theorem reset_resolves_waiter_once:
  assumes "q = queue_run ops MessageQueue_new"
  shows "(waitResolve q = Some r \<longrightarrow>
            trace (reset q) = trace q @ [Resolved r None] \<and>
            resolutions_of r (trace (reset q)) = [None] \<and>
            waitResolve (reset q) = None \<and> queue (reset q) = [] \<and>
            reset (reset q) = reset q) \<and>
         (waitResolve q = None \<longrightarrow> reset q = q\<lparr>queue := []\<rparr>)"
proof -
  have "resolvers_fresh q"
    using assms resolvers_fresh_run [OF resolvers_fresh_new] by simp
  then have "waitResolve q = Some r \<Longrightarrow> resolutions_of r (trace q) = []"
    by (simp add: resolvers_fresh_def)
  then show ?thesis
    by (auto simp: reset_def Let_def resolutions_of_append)
qed

theorem reset_resolves_waiter_once_witness:
  "waitResolve (queue_run [WaitForMessage] MessageQueue_new) = Some 0 \<and>
   resolutions_of 0 (trace (reset (queue_run [WaitForMessage] MessageQueue_new))) = [None] \<and>
   waitResolve (queue_run [Push ''a'' None] MessageQueue_new) = None \<and>
   queue (queue_run [Push ''a'' None] MessageQueue_new) = [\<lparr>message = ''a'', images = None\<rparr>] \<and>
   queue (reset (queue_run [Push ''a'' None] MessageQueue_new)) = []"
proof -
  have a: "waitResolve (queue_run [WaitForMessage] MessageQueue_new) = Some 0"
    by (simp add: queue_run_def waitForMessage_def MessageQueue_new_def)
  have b: "waitResolve (queue_run [Push ''a'' None] MessageQueue_new) = None"
    by (simp add: queue_run_def push_def notify_callback_def MessageQueue_new_def Let_def)
  have c: "queue (queue_run [Push ''a'' None] MessageQueue_new) = [\<lparr>message = ''a'', images = None\<rparr>]"
    by (simp add: queue_run_def push_def notify_callback_def MessageQueue_new_def Let_def)
  have d: "resolutions_of 0 (trace (reset (queue_run [WaitForMessage] MessageQueue_new))) = [None]"
    using reset_resolves_waiter_once [OF refl, of "[WaitForMessage]" 0] a by blast
  have e: "reset (queue_run [Push ''a'' None] MessageQueue_new) =
           (queue_run [Push ''a'' None] MessageQueue_new)\<lparr>queue := []\<rparr>"
    using reset_resolves_waiter_once [OF refl, of "[Push ''a'' None]" 0] b by blast
  have f: "queue (reset (queue_run [Push ''a'' None] MessageQueue_new)) = []"
    by (simp add: e)
  from a b c d f show ?thesis by blast
qed

subsection \<open>Pushes followed by waits\<close>

lemma pushes_idle_open:
  "idle_open q \<Longrightarrow> pushes ps q = q\<lparr>queue := queue q @ map mk_message ps\<rparr>"
proof (induction ps arbitrary: q)
  case Nil
  then show ?case by simp
next
  case (Cons p ps)
  obtain m imgs where p: "p = (m, imgs)" by (cases p)
  have step: "push m imgs q = q\<lparr>queue := queue q @ [mk_message p]\<rparr>"
    using Cons.prems by (simp add: push_def idle_open_def notify_callback_def mk_message_def p)
  have "idle_open (push m imgs q)"
    using Cons.prems by (simp add: step idle_open_def)
  from Cons.IH [OF this] show ?case
    by (simp add: p step)
qed

lemma waits_backlog:
  "\<not> closed q \<Longrightarrow> n \<le> length (queue q) \<Longrightarrow>
   waits n q = (map (\<lambda>m. Returned (Some m)) (take n (queue q)), q\<lparr>queue := drop n (queue q)\<rparr>)"
proof (induction n arbitrary: q)
  case 0
  then show ?case by simp
next
  case (Suc n)
  then obtain m rest where qq: "queue q = m # rest" by (cases "queue q") auto
  have w: "waitForMessage q = (Returned (Some m), q\<lparr>queue := rest\<rparr>)"
    using Suc.prems by (simp add: waitForMessage_def qq)
  have "waits n (q\<lparr>queue := rest\<rparr>) =
        (map (\<lambda>m. Returned (Some m)) (take n rest), q\<lparr>queue := drop n rest\<rparr>)"
    using Suc.IH [of "q\<lparr>queue := rest\<rparr>"] Suc.prems qq by simp
  then show ?case by (simp add: w qq)
qed

lemma waits_empty:
  "\<not> closed q \<Longrightarrow> queue q = [] \<Longrightarrow>
   waits (Suc n) q =
     (map Suspended [promises q ..< promises q + Suc n],
      q\<lparr>waitResolve := Some (promises q + n), promises := promises q + Suc n\<rparr>)"
proof (induction n arbitrary: q)
  case 0
  then show ?case by (simp add: waitForMessage_def)
next
  case (Suc n)
  let ?q1 = "q\<lparr>waitResolve := Some (promises q), promises := Suc (promises q)\<rparr>"
  have w: "waitForMessage q = (Suspended (promises q), ?q1)"
    using Suc.prems by (simp add: waitForMessage_def)
  have "waits (Suc n) ?q1 =
     (map Suspended [promises ?q1 ..< promises ?q1 + Suc n],
      ?q1\<lparr>waitResolve := Some (promises ?q1 + n), promises := promises ?q1 + Suc n\<rparr>)"
    using Suc.IH [of ?q1] Suc.prems by simp
  then show ?case
    by (simp add: w upt_rec [of "promises q"])
qed

lemma waits_add:
  "waits (a + b) q =
     (fst (waits a q) @ fst (waits b (snd (waits a q))), snd (waits b (snd (waits a q))))"
  by (induction a arbitrary: q) (simp_all add: split_beta Let_def)

lemma pushes_new: "pushes ps MessageQueue_new = MessageQueue_new\<lparr>queue := map mk_message ps\<rparr>"
  using pushes_idle_open [of MessageQueue_new ps]
  by (simp add: idle_open_def MessageQueue_new_def)

lemma waits_after_pushes:
  "M \<le> length ps \<Longrightarrow>
   waits M (pushes ps MessageQueue_new) =
     (map (\<lambda>p. Returned (Some (mk_message p))) (take M ps),
      MessageQueue_new\<lparr>queue := map mk_message (drop M ps)\<rparr>)"
proof -
  assume le: "M \<le> length ps"
  let ?q = "MessageQueue_new\<lparr>queue := map mk_message ps\<rparr>"
  have "\<not> closed ?q" and "M \<le> length (queue ?q)"
    using le by (simp_all add: MessageQueue_new_def)
  from waits_backlog [OF this] show ?thesis
    unfolding pushes_new by (simp add: take_map drop_map comp_def)
qed

lemma waits_beyond_pushes:
  "waits (length ps + Suc k) (pushes ps MessageQueue_new) =
     (map (\<lambda>p. Returned (Some (mk_message p))) ps @ map Suspended [0..<Suc k],
      MessageQueue_new\<lparr>waitResolve := Some k, promises := Suc k\<rparr>)"
proof -
  let ?q1 = "MessageQueue_new\<lparr>queue := []\<rparr>"
  have a: "waits (length ps) (pushes ps MessageQueue_new) =
        (map (\<lambda>p. Returned (Some (mk_message p))) ps, ?q1)"
    using waits_after_pushes [of "length ps" ps] by simp
  have b: "waits (Suc k) ?q1 =
     (map Suspended [0..<Suc k], MessageQueue_new\<lparr>waitResolve := Some k, promises := Suc k\<rparr>)"
    using waits_empty [of ?q1 k] by (simp add: MessageQueue_new_def)
  have "waits (length ps + Suc k) (pushes ps MessageQueue_new) =
     (fst (waits (length ps) (pushes ps MessageQueue_new)) @
      fst (waits (Suc k) (snd (waits (length ps) (pushes ps MessageQueue_new)))),
      snd (waits (Suc k) (snd (waits (length ps) (pushes ps MessageQueue_new)))))"
    by (rule waits_add)
  then show ?thesis
    by (simp only: a b fst_conv snd_conv)
qed

lemma pushes_waiting:
  "pushes (later # others) (MessageQueue_new\<lparr>waitResolve := Some k, promises := Suc k\<rparr>) =
     MessageQueue_new\<lparr>queue := map mk_message others, promises := Suc k,
        trace := [Resolved k (Some (mk_message later))]\<rparr>"
proof -
  obtain m imgs where l: "later = (m, imgs)" by (cases later)
  let ?q = "MessageQueue_new\<lparr>waitResolve := Some k, promises := Suc k\<rparr>"
  have p: "push m imgs ?q =
     MessageQueue_new\<lparr>promises := Suc k, trace := [Resolved k (Some (mk_message later))]\<rparr>"
    by (simp add: push_def notify_callback_def MessageQueue_new_def mk_message_def l)
  have idle: "idle_open (push m imgs ?q)"
    unfolding p by (simp add: idle_open_def MessageQueue_new_def)
  have "pushes (later # others) ?q = pushes others (push m imgs ?q)"
    by (simp add: l)
  also have "\<dots> = (push m imgs ?q)\<lparr>queue := queue (push m imgs ?q) @ map mk_message others\<rparr>"
    by (rule pushes_idle_open [OF idle])
  also have "\<dots> = MessageQueue_new\<lparr>queue := map mk_message others, promises := Suc k,
        trace := [Resolved k (Some (mk_message later))]\<rparr>"
    unfolding p by (simp add: MessageQueue_new_def)
  finally show ?thesis .
qed

lemma wait_then_push_idle:
  "idle_open q \<Longrightarrow> queue q = [] \<Longrightarrow>
   wait_then_push ls q =
     q\<lparr>promises := promises q + length ls,
       trace := trace q @ resolved_in_turn (promises q) ls\<rparr>"
proof (induction ls arbitrary: q)
  case Nil
  then show ?case by (simp add: resolved_in_turn_def)
next
  case (Cons l ls)
  obtain m imgs where l: "l = (m, imgs)" by (cases l)
  let ?q1 = "push m imgs (snd (waitForMessage q))"
  have q1: "?q1 = q\<lparr>promises := Suc (promises q),
      trace := trace q @ [Resolved (promises q) (Some (mk_message l))]\<rparr>"
    using Cons.prems
    by (simp add: idle_open_def waitForMessage_def push_def notify_callback_def mk_message_def l)
  have i: "idle_open ?q1" "queue ?q1 = []"
    using Cons.prems unfolding q1 by (simp_all add: idle_open_def)
  have z: "resolved_in_turn (promises q) (l # ls) =
      Resolved (promises q) (Some (mk_message l)) # resolved_in_turn (Suc (promises q)) ls"
  proof -
    have "[promises q..<promises q + length (l # ls)] =
        promises q # [Suc (promises q)..<Suc (promises q) + length ls]"
      using upt_conv_Cons [of "promises q" "promises q + Suc (length ls)"]
      by (simp del: upt_Suc)
    then show ?thesis
      unfolding resolved_in_turn_def by simp
  qed
  have "wait_then_push (l # ls) q = wait_then_push ls ?q1"
    by (simp add: l)
  also have "\<dots> = ?q1\<lparr>promises := promises ?q1 + length ls,
       trace := trace ?q1 @ resolved_in_turn (promises ?q1) ls\<rparr>"
    by (rule Cons.IH [OF i])
  also have "\<dots> = q\<lparr>promises := promises q + length (l # ls),
       trace := trace q @ resolved_in_turn (promises q) (l # ls)\<rparr>"
    unfolding q1 z by simp
  finally show ?case .
qed

lemma wait_then_push_after:
  "trace (wait_then_push ls (snd (waits (length ps) (pushes ps MessageQueue_new)))) =
     resolved_in_turn 0 ls \<and>
   queue (wait_then_push ls (snd (waits (length ps) (pushes ps MessageQueue_new)))) = []"
proof -
  let ?q = "MessageQueue_new\<lparr>queue := map mk_message (drop (length ps) ps)\<rparr>"
  have w: "snd (waits (length ps) (pushes ps MessageQueue_new)) = ?q"
    using waits_after_pushes [of "length ps" ps] by simp
  have "idle_open ?q" "queue ?q = []"
    by (simp_all add: idle_open_def MessageQueue_new_def)
  from wait_then_push_idle [OF this, of ls] show ?thesis
    unfolding w by (simp add: MessageQueue_new_def)
qed

text \<open>
  Claim C4, as amended. On a new queue, after the pushes \<open>ps\<close>, \<open>M\<close> calls of
  \<open>waitForMessage\<close> return the first \<open>M\<close> pushed messages in push order; when there are
  fewer pushes than waits, the waits beyond the pushes all suspend. A wait that suspends
  is resolved by the next push when that push comes before another wait: after as many
  waits as pushes, waits and pushes in alternation resolve each wait with the message
  pushed after it. When several waits are suspended at once, the queue holds the
  resolver of the last one only: of the later pushes, the first resolves that wait with
  its message, and the others are queued. No earlier suspended wait is resolved by them.
\<close>

theorem pushes_then_waits:
  "fst (waits M (pushes ps MessageQueue_new)) =
     map (\<lambda>p. Returned (Some (mk_message p))) (take M ps) @
     map Suspended [0..<M - length ps] \<and>
   trace (wait_then_push ls (snd (waits (length ps) (pushes ps MessageQueue_new)))) =
     resolved_in_turn 0 ls \<and>
   (length ps < M \<longrightarrow>
      waitResolve (snd (waits M (pushes ps MessageQueue_new))) = Some (M - length ps - 1) \<and>
      trace (pushes (later # others) (snd (waits M (pushes ps MessageQueue_new)))) =
        [Resolved (M - length ps - 1) (Some (mk_message later))] \<and>
      queue (pushes (later # others) (snd (waits M (pushes ps MessageQueue_new)))) =
        map mk_message others)"
proof -
  have alt: "trace (wait_then_push ls (snd (waits (length ps) (pushes ps MessageQueue_new)))) =
      resolved_in_turn 0 ls"
    using wait_then_push_after by blast
  have rest: "fst (waits M (pushes ps MessageQueue_new)) =
       map (\<lambda>p. Returned (Some (mk_message p))) (take M ps) @
       map Suspended [0..<M - length ps] \<and>
     (length ps < M \<longrightarrow>
        waitResolve (snd (waits M (pushes ps MessageQueue_new))) = Some (M - length ps - 1) \<and>
        trace (pushes (later # others) (snd (waits M (pushes ps MessageQueue_new)))) =
          [Resolved (M - length ps - 1) (Some (mk_message later))] \<and>
        queue (pushes (later # others) (snd (waits M (pushes ps MessageQueue_new)))) =
          map mk_message others)"
  proof (cases "M \<le> length ps")
    case True
    then show ?thesis by (simp add: waits_after_pushes)
  next
    case False
    then obtain k where M: "M = length ps + Suc k"
      by (metis add_Suc_right less_imp_Suc_add not_le)
    have w: "waits M (pushes ps MessageQueue_new) =
       (map (\<lambda>p. Returned (Some (mk_message p))) ps @ map Suspended [0..<Suc k],
        MessageQueue_new\<lparr>waitResolve := Some k, promises := Suc k\<rparr>)"
      unfolding M by (rule waits_beyond_pushes)
    have k: "M - length ps = Suc k" "take M ps = ps" "length ps < M"
      using M by simp_all
    show ?thesis
      unfolding w k by (simp add: pushes_waiting del: pushes.simps)
  qed
  from alt rest show ?thesis by blast
qed

theorem pushes_then_waits_witness:
  "length [(''a'', None)] < (2::nat) \<and>
   fst (waits 2 (pushes [(''a'', None)] MessageQueue_new)) =
     [Returned (Some \<lparr>message = ''a'', images = None\<rparr>), Suspended 0] \<and>
   trace (pushes [(''b'', None), (''c'', None)] (snd (waits 2 (pushes [(''a'', None)] MessageQueue_new)))) =
     [Resolved 0 (Some \<lparr>message = ''b'', images = None\<rparr>)] \<and>
   queue (pushes [(''b'', None), (''c'', None)] (snd (waits 2 (pushes [(''a'', None)] MessageQueue_new)))) =
     [\<lparr>message = ''c'', images = None\<rparr>]"
  using pushes_then_waits
    [where M = 2 and ps = "[(''a'', None)]" and later = "(''b'', None)"
       and others = "[(''c'', None)]"]
  by (simp add: mk_message_def)

text \<open>
  Claim C4 as stated fails when two waits are suspended: on a new queue, two waits
  followed by two pushes leave the first wait unresolved and the second message queued.
\<close>

theorem second_suspended_wait_counterexample:
  "fst (waits 2 (pushes [] MessageQueue_new)) = [Suspended 0, Suspended 1] \<and>
   resolutions_of 0
     (trace (pushes [(''a'', None), (''b'', None)] (snd (waits 2 (pushes [] MessageQueue_new))))) = [] \<and>
   queue (pushes [(''a'', None), (''b'', None)] (snd (waits 2 (pushes [] MessageQueue_new)))) =
     [\<lparr>message = ''b'', images = None\<rparr>]"
  by (simp add: numeral_2_eq_2 waitForMessage_def push_def notify_callback_def
      MessageQueue_new_def Let_def)

section \<open>Properties of the session\<close>

subsection \<open>A new permission request clears the parked response\<close>

lemma clear_all_pending:
  "pendingPermissionResponse (clearPendingPermissionResponse (Some 0) now s) = None"
  by (simp add: clearPendingPermissionResponse_def maxAgeMs_or_default_def split: option.splits)

text \<open>
  Claim C1. When the remote launcher's \<open>onPermissionRequest\<close> runs for a tool that is not
  always allowed, no permission response is parked in the session afterwards, whatever
  was parked before and whenever it was received.
\<close>

theorem permission_request_clears_pending:
  "\<not> isToolAlwaysAllowed toolName s \<Longrightarrow>
   \<not> hasPendingPermissionResponse (onPermissionRequest toolName toolInput now s)"
  by (simp add: onPermissionRequest_def hasPendingPermissionResponse_def Let_def
      sendClaudeEvent_def clear_all_pending)

theorem permission_request_clears_pending_witness:
  "hasPendingPermissionResponse
     (handleMessage (PermissionResponseMessage Yes) 1000 (Session_new ''s'')) \<and>
   \<not> isToolAlwaysAllowed ''Edit''
     (handleMessage (PermissionResponseMessage Yes) 1000 (Session_new ''s'')) \<and>
   \<not> hasPendingPermissionResponse
     (onPermissionRequest ''Edit'' ''{}'' 1000
        (handleMessage (PermissionResponseMessage Yes) 1000 (Session_new ''s'')))"
proof -
  let ?s = "handleMessage (PermissionResponseMessage Yes) 1000 (Session_new ''s'')"
  have a: "hasPendingPermissionResponse ?s"
    by (simp add: handleMessage_def Session_new_def call_handler_def
        hasPendingPermissionResponse_def)
  have b: "\<not> isToolAlwaysAllowed ''Edit'' ?s"
    by (simp add: handleMessage_def Session_new_def call_handler_def isToolAlwaysAllowed_def)
  from a b permission_request_clears_pending [OF b, of "''{}''" 1000] show ?thesis by blast
qed

subsection \<open>Consuming a parked response\<close>

lemma park_response:
  "permissionResolver s = None \<Longrightarrow>
   pendingPermissionResponse (handleMessage (PermissionResponseMessage r) t0 s) =
     Some \<lparr>response = r, receivedAt = t0\<rparr>"
  by (simp add: handleMessage_def call_handler_def Let_def split: option.splits)

lemma consume_pending:
  "pendingPermissionResponse s = Some \<lparr>response = r, receivedAt = t0\<rparr> \<Longrightarrow>
   consumePendingPermissionResponse maxAge t1 s =
     (if t1 - t0 > maxAgeMs_or_default maxAge then None else Some r,
      s\<lparr>pendingPermissionResponse := None\<rparr>)"
  by (simp add: consumePendingPermissionResponse_def Let_def)

lemma consume_nothing:
  "pendingPermissionResponse s = None \<Longrightarrow> consumePendingPermissionResponse maxAge t s = (None, s)"
  by (simp add: consumePendingPermissionResponse_def)

text \<open>
  Claim C2. A permission response \<open>r\<close> that arrives at time \<open>t0\<close> while no resolver is
  outstanding is parked. The TTL defaults to 30000 ms. A call of
  \<open>consumePendingPermissionResponse\<close> at time \<open>t1\<close> with \<open>t1 - t0\<close> within the TTL returns
  \<open>r\<close> and clears the slot, so that a second call returns null; a call with \<open>t1 - t0\<close>
  above the TTL returns null and clears the slot as well.
\<close>

theorem parked_response_consumed_within_ttl:
  assumes "permissionResolver s = None"
    and "s1 = handleMessage (PermissionResponseMessage r) t0 s"
  shows "maxAgeMs_or_default None = 30000 \<and>
     hasPendingPermissionResponse s1 \<and>
     (t1 - t0 \<le> maxAgeMs_or_default maxAge \<longrightarrow>
        fst (consumePendingPermissionResponse maxAge t1 s1) = Some r \<and>
        \<not> hasPendingPermissionResponse (snd (consumePendingPermissionResponse maxAge t1 s1)) \<and>
        fst (consumePendingPermissionResponse maxAge' t2
               (snd (consumePendingPermissionResponse maxAge t1 s1))) = None) \<and>
     (t1 - t0 > maxAgeMs_or_default maxAge \<longrightarrow>
        fst (consumePendingPermissionResponse maxAge t1 s1) = None \<and>
        \<not> hasPendingPermissionResponse (snd (consumePendingPermissionResponse maxAge t1 s1)))"
proof -
  have p: "pendingPermissionResponse s1 = Some \<lparr>response = r, receivedAt = t0\<rparr>"
    using assms park_response by simp
  show ?thesis
    by (simp add: consume_pending [OF p] consume_nothing hasPendingPermissionResponse_def p
        maxAgeMs_or_default_def)
qed

theorem parked_response_consumed_within_ttl_witness:
  "permissionResolver (Session_new ''s'') = None \<and>
   fst (consumePendingPermissionResponse None 31000
          (handleMessage (PermissionResponseMessage Always) 1000 (Session_new ''s''))) = Some Always \<and>
   fst (consumePendingPermissionResponse None 31001
          (handleMessage (PermissionResponseMessage Always) 1000 (Session_new ''s''))) = None"
proof -
  have a: "permissionResolver (Session_new ''s'') = None"
    by (simp add: Session_new_def)
  have d: "maxAgeMs_or_default None = 30000"
    by (simp add: maxAgeMs_or_default_def)
  have b: "fst (consumePendingPermissionResponse None 31000
          (handleMessage (PermissionResponseMessage Always) 1000 (Session_new ''s''))) = Some Always"
    using parked_response_consumed_within_ttl
      [OF a refl, where ?t1.0 = 31000 and ?t0.0 = 1000 and maxAge = None and r = Always] d
    by simp
  have c: "fst (consumePendingPermissionResponse None 31001
          (handleMessage (PermissionResponseMessage Always) 1000 (Session_new ''s''))) = None"
    using parked_response_consumed_within_ttl
      [OF a refl, where ?t1.0 = 31001 and ?t0.0 = 1000 and maxAge = None and r = Always] d
    by simp
  from a b c show ?thesis by blast
qed

subsection \<open>The protected tool\<close>

lemma mark_protected: "markToolAlwaysAllowed ''AskUserQuestion'' s = s"
  by (simp add: markToolAlwaysAllowed_def)

lemma marks_tools:
  "alwaysAllowedTools (fold markToolAlwaysAllowed ts s) =
     alwaysAllowedTools s \<union> (set ts - {''AskUserQuestion''})"
  by (induction ts arbitrary: s) (auto simp: markToolAlwaysAllowed_def)

text \<open>
  Claim C3. In every session state and after every sequence \<open>ts\<close> of
  \<open>markToolAlwaysAllowed\<close> calls, \<open>isToolAlwaysAllowed\<close> is false for AskUserQuestion;
  marking AskUserQuestion leaves the session as it is, and the set of a new session
  never contains it. Every other tool is always allowed once it has been marked, and
  stays so.
\<close>

theorem protected_tool_never_always_allowed:
  "\<not> isToolAlwaysAllowed ''AskUserQuestion'' (fold markToolAlwaysAllowed ts s) \<and>
   markToolAlwaysAllowed ''AskUserQuestion'' s = s \<and>
   ''AskUserQuestion'' \<notin> alwaysAllowedTools (fold markToolAlwaysAllowed ts (Session_new sid)) \<and>
   (t \<noteq> ''AskUserQuestion'' \<longrightarrow>
      isToolAlwaysAllowed t (markToolAlwaysAllowed t s) \<and>
      isToolAlwaysAllowed t (fold markToolAlwaysAllowed ts (markToolAlwaysAllowed t s)))"
  by (simp add: isToolAlwaysAllowed_def mark_protected marks_tools Session_new_def)
     (simp add: markToolAlwaysAllowed_def)

theorem protected_tool_never_always_allowed_witness:
  "''Bash'' \<noteq> ''AskUserQuestion'' \<and>
   isToolAlwaysAllowed ''Bash'' (markToolAlwaysAllowed ''Bash'' (Session_new ''s'')) \<and>
   \<not> isToolAlwaysAllowed ''AskUserQuestion''
      (fold markToolAlwaysAllowed [''AskUserQuestion'', ''Bash''] (Session_new ''s''))"
proof -
  have a: "''Bash'' \<noteq> ''AskUserQuestion''"
    by simp
  from a protected_tool_never_always_allowed
    [where ts = "[''AskUserQuestion'', ''Bash'']" and s = "Session_new ''s''" and t = "''Bash''"]
  show ?thesis by blast
qed


section \<open>Properties of the session scanner\<close>

lemma fresh_entries_keys:
  "messageKey ` set (fresh_entries es seen) = messageKey ` set es - seen"
  by (induction es arbitrary: seen) auto

lemma fresh_entries_distinct: "distinct (map messageKey (fresh_entries es seen))"
  by (induction es arbitrary: seen) (auto simp: fresh_entries_keys)

lemma sync_entries_eq:
  "fst (sync_entries es sc b) =
     sc\<lparr>processedMessageKeys := processedMessageKeys sc \<union> messageKey ` set es,
        forwarded := forwarded sc @ fresh_entries es (processedMessageKeys sc)\<rparr>"
proof (induction es arbitrary: sc b)
  case Nil
  then show ?case by simp
next
  case (Cons e es)
  show ?case
  proof (cases "messageKey e \<in> processedMessageKeys sc")
    case True
    then have "insert (messageKey e) (processedMessageKeys sc \<union> messageKey ` set es) =
        processedMessageKeys sc \<union> messageKey ` set es"
      by auto
    with True show ?thesis by (simp add: Cons.IH)
  next
    case False
    then show ?thesis by (simp add: Cons.IH)
  qed
qed

lemma sync_session:
  "currentSessionId sc = Some sid \<Longrightarrow> sid \<noteq> [] \<Longrightarrow>
   forwarded (sync files sc) =
     forwarded sc @ fresh_entries (readSessionLog files sid) (processedMessageKeys sc) \<and>
   processedMessageKeys (sync files sc) =
     processedMessageKeys sc \<union> messageKey ` set (readSessionLog files sid) \<and>
   currentSessionId (sync files sc) = Some sid"
  by (simp add: sync_def sync_entries_eq split_beta)

lemma sync_no_session:
  "currentSessionId sc = None \<or> currentSessionId sc = Some [] \<Longrightarrow> sync files sc = sc"
  by (auto simp: sync_def)

lemma fresh_entries_seen: "messageKey ` set es \<subseteq> seen \<Longrightarrow> fresh_entries es seen = []"
  by (induction es arbitrary: seen) auto

lemma sync_twice: "forwarded (sync files (sync files sc)) = forwarded (sync files sc)"
proof (cases "\<exists>sid. currentSessionId sc = Some sid \<and> sid \<noteq> []")
  case True
  then obtain sid where c: "currentSessionId sc = Some sid" "sid \<noteq> []" by blast
  note a = sync_session [OF c, of files]
  from a have c2: "currentSessionId (sync files sc) = Some sid" by simp
  note b = sync_session [OF c2 c(2), of files]
  have "fresh_entries (readSessionLog files sid) (processedMessageKeys (sync files sc)) = []"
    using a by (intro fresh_entries_seen) simp
  with b show ?thesis by simp
next
  case False
  then have "sync files sc = sc"
    by (intro sync_no_session) (cases "currentSessionId sc", auto)
  then show ?thesis by simp
qed

lemma forwarded_once_sync: "forwarded_once sc \<Longrightarrow> forwarded_once (sync files sc)"
proof (cases "\<exists>sid. currentSessionId sc = Some sid \<and> sid \<noteq> []")
  case True
  assume f: "forwarded_once sc"
  from True obtain sid where c: "currentSessionId sc = Some sid" "sid \<noteq> []" by blast
  let ?new = "fresh_entries (readSessionLog files sid) (processedMessageKeys sc)"
  note a = sync_session [OF c, of files]
  have keys: "messageKey ` set ?new =
      messageKey ` set (readSessionLog files sid) - processedMessageKeys sc"
    by (rule fresh_entries_keys)
  have old: "messageKey ` set (forwarded sc) \<subseteq> processedMessageKeys sc"
    using f by (simp add: forwarded_once_def)
  have disj: "set (map messageKey (forwarded sc)) \<inter> set (map messageKey ?new) = {}"
    using keys old by auto
  have "distinct (map messageKey (forwarded sc @ ?new))"
    using f disj by (simp add: forwarded_once_def fresh_entries_distinct)
  moreover have "messageKey ` set (forwarded sc @ ?new) \<subseteq>
      processedMessageKeys sc \<union> messageKey ` set (readSessionLog files sid)"
    using keys old by auto
  ultimately show ?thesis
    using a by (simp add: forwarded_once_def)
next
  case False
  assume f: "forwarded_once sc"
  from False have "sync files sc = sc"
    by (intro sync_no_session) (cases "currentSessionId sc", auto)
  with f show ?thesis by simp
qed

lemma forwarded_once_step: "forwarded_once sc \<Longrightarrow> forwarded_once (scanner_step x sc)"
proof (cases x)
  case (SyncPass files)
  assume "forwarded_once sc"
  then have "forwarded_once (sc\<lparr>syncTimeout := False\<rparr>)"
    by (simp add: forwarded_once_def)
  then show ?thesis
    unfolding SyncPass scanner_step.simps by (rule forwarded_once_sync)
next
  case (NewSession sid)
  assume "forwarded_once sc"
  then show ?thesis
    by (simp add: NewSession onNewSession_def scheduleSync_def forwarded_once_def)
qed

lemma forwarded_once_run: "forwarded_once sc \<Longrightarrow> forwarded_once (scanner_run ops sc)"
  unfolding scanner_run_def
  by (induction ops arbitrary: sc) (simp_all add: forwarded_once_step)

lemma forwarded_once_create: "forwarded_once (createSessionScanner sid onIdle files)"
  by (simp add: forwarded_once_def createSessionScanner_def)

lemma onNewSession_fields:
  "forwarded (onNewSession sid sc) = forwarded sc \<and>
   processedMessageKeys (onNewSession sid sc) = processedMessageKeys sc \<and>
   currentSessionId (onNewSession sid sc) = Some sid"
  by (auto simp: onNewSession_def scheduleSync_def)

text \<open>
  Claim C6. Let \<open>sc\<close> be any state of a scanner, reached from its creation by sync passes
  (each over the files as they are then) and announcements of new sessions. The keys of
  the entries forwarded so far are pairwise distinct and all processed. A second sync
  pass over the same files forwards nothing more. After a retarget to a session \<open>sid\<close>, a
  sync pass forwards entries with exactly the keys of the new file that were not
  processed before, so none that was forwarded under an earlier session.
\<close>

theorem transcript_keys_forwarded_once:
  assumes "sc = scanner_run ops (createSessionScanner sid0 onIdle files0)"
  shows "distinct (map messageKey (forwarded sc)) \<and>
     messageKey ` set (forwarded sc) \<subseteq> processedMessageKeys sc \<and>
     forwarded (sync files (sync files sc)) = forwarded (sync files sc) \<and>
     (sid \<noteq> [] \<longrightarrow>
        forwarded (sync files (onNewSession sid sc)) =
          forwarded sc @ forwarded_since sc (sync files (onNewSession sid sc)) \<and>
        messageKey ` set (forwarded_since sc (sync files (onNewSession sid sc))) =
          messageKey ` set (readSessionLog files sid) - processedMessageKeys sc)"
proof -
  have inv: "forwarded_once sc"
    unfolding assms by (rule forwarded_once_run [OF forwarded_once_create])
  have retarget: "forwarded (sync files (onNewSession sid sc)) =
      forwarded sc @ fresh_entries (readSessionLog files sid) (processedMessageKeys sc)"
    if "sid \<noteq> []"
    using sync_session [of "onNewSession sid sc" sid files] that onNewSession_fields [of sid sc]
    by simp
  show ?thesis
    using inv retarget
    by (simp add: forwarded_once_def sync_twice forwarded_since_def fresh_entries_keys)
qed

theorem transcript_keys_forwarded_once_witness:
  "''s2'' \<noteq> [] \<and>
   forwarded (scanner_run
      [NewSession ''s1'',
       SyncPass [''s1'' \<mapsto> [EntryLine (UserEntry ''u1'' ''hi''), MalformedLine,
                              EntryLine (AssistantEntry ''a1'' ''ok'')]]]
      (createSessionScanner None True Map.empty)) =
     [UserEntry ''u1'' ''hi'', AssistantEntry ''a1'' ''ok''] \<and>
   messageKey ` set (forwarded_since
      (scanner_run
        [NewSession ''s1'',
         SyncPass [''s1'' \<mapsto> [EntryLine (UserEntry ''u1'' ''hi''), MalformedLine,
                                EntryLine (AssistantEntry ''a1'' ''ok'')]]]
        (createSessionScanner None True Map.empty))
      (sync [''s2'' \<mapsto> [EntryLine (UserEntry ''u1'' ''hi''), EntryLine (UserEntry ''u2'' ''more'')]]
        (onNewSession ''s2''
          (scanner_run
            [NewSession ''s1'',
             SyncPass [''s1'' \<mapsto> [EntryLine (UserEntry ''u1'' ''hi''), MalformedLine,
                                    EntryLine (AssistantEntry ''a1'' ''ok'')]]]
            (createSessionScanner None True Map.empty))))) = {''u2''}"
proof -
  let ?sc = "scanner_run
      [NewSession ''s1'',
       SyncPass [''s1'' \<mapsto> [EntryLine (UserEntry ''u1'' ''hi''), MalformedLine,
                              EntryLine (AssistantEntry ''a1'' ''ok'')]]]
      (createSessionScanner None True Map.empty)"
  let ?files = "[''s2'' \<mapsto> [EntryLine (UserEntry ''u1'' ''hi''), EntryLine (UserEntry ''u2'' ''more'')]]"
  have a: "''s2'' \<noteq> []" by simp
  have sc: "?sc = \<lparr>processedMessageKeys = {''a1'', ''u1''}, currentSessionId = Some ''s1'',
      watching = Some ''s1'', syncTimeout = False, hasOnIdle = True,
      forwarded = [UserEntry ''u1'' ''hi'', AssistantEntry ''a1'' ''ok''], idleCalls = 1\<rparr>"
    by (simp add: scanner_run_def createSessionScanner_def onNewSession_def scheduleSync_def
        sync_def readSessionLog_def)
  have b: "forwarded ?sc = [UserEntry ''u1'' ''hi'', AssistantEntry ''a1'' ''ok'']"
    by (simp add: sc)
  have c: "messageKey ` set (readSessionLog ?files ''s2'') - processedMessageKeys ?sc = {''u2''}"
    unfolding sc by (auto simp: readSessionLog_def)
  have d: "messageKey ` set (forwarded_since ?sc (sync ?files (onNewSession ''s2'' ?sc))) =
      messageKey ` set (readSessionLog ?files ''s2'') - processedMessageKeys ?sc"
    using transcript_keys_forwarded_once [OF refl, where sid = "''s2''" and files = ?files] a
    by blast
  from a b c d show ?thesis by simp
qed

section \<open>Properties of the WebSocket client\<close>

lemma ws_close_handler_no_schedule: "filter is_schedule (call_closeHandler c) = []"
  by (simp add: call_closeHandler_def)

lemma ws_step_intentional:
  "isIntentionallyClosed c \<Longrightarrow>
   isIntentionallyClosed (fst (ws_step e c)) \<and> filter is_schedule (snd (ws_step e c)) = []"
  by (cases e)
     (simp_all add: ws_on_open_def ws_on_close_def ws_on_error_def ws_onClose_def ws_close_def
        Let_def ws_close_handler_no_schedule)

lemma ws_run_intentional:
  "isIntentionallyClosed c \<Longrightarrow>
   isIntentionallyClosed (fst (ws_run es c)) \<and> filter is_schedule (snd (ws_run es c)) = []"
proof (induction es arbitrary: c)
  case Nil
  then show ?case by simp
next
  case (Cons e es)
  from ws_step_intentional [OF Cons.prems, of e]
  have s: "isIntentionallyClosed (fst (ws_step e c))"
    and n: "filter is_schedule (snd (ws_step e c)) = []" by simp_all
  from Cons.IH [OF s] n show ?case
    by (simp add: split_beta)
qed

lemma ws_step_bound:
  "reconnectAttempts c \<le> maxReconnects \<Longrightarrow> reconnectAttempts (fst (ws_step e c)) \<le> maxReconnects"
  by (cases e)
     (simp_all add: ws_on_open_def ws_on_close_def ws_on_error_def ws_onClose_def ws_close_def
        Let_def)

lemma ws_run_bound:
  "reconnectAttempts c \<le> maxReconnects \<Longrightarrow> reconnectAttempts (fst (ws_run es c)) \<le> maxReconnects"
proof (induction es arbitrary: c)
  case Nil
  then show ?case by simp
next
  case (Cons e es)
  from Cons.IH [OF ws_step_bound [OF Cons.prems, of e]] show ?case
    by (simp add: split_beta)
qed

text \<open>
  Claim C7. On a close that the caller did not ask for, with fewer than 50 attempts
  made, the attempt counter goes up by one and a reconnect is scheduled after
  \<open>min (attempt * 1000) 10000\<close> ms, for the new value of the counter. With 50 attempts
  made, nothing is scheduled, whether a close handler is registered or not, and the
  close handler is called when one is registered; the counter never goes above 50. An open sets the counter to 0. After the caller's \<open>close()\<close> the flag is set,
  and no event schedules a reconnect from then on.
\<close>

theorem reconnect_state_machine:
  "(\<not> isIntentionallyClosed c \<and> reconnectAttempts c < 50 \<longrightarrow>
      reconnectAttempts (fst (ws_on_close c)) = reconnectAttempts c + 1 \<and>
      snd (ws_on_close c) = [ScheduleConnect (min ((reconnectAttempts c + 1) * 1000) 10000)]) \<and>
   (\<not> isIntentionallyClosed c \<and> 50 \<le> reconnectAttempts c \<and> closeHandler c \<longrightarrow>
      snd (ws_on_close c) = [CloseHandlerCalled] \<and>
      reconnectAttempts (fst (ws_on_close c)) = reconnectAttempts c) \<and>
   (\<not> isIntentionallyClosed c \<and> 50 \<le> reconnectAttempts c \<longrightarrow>
      filter is_schedule (snd (ws_on_close c)) = [] \<and>
      snd (ws_on_close c) = (if closeHandler c then [CloseHandlerCalled] else []) \<and>
      reconnectAttempts (fst (ws_on_close c)) = reconnectAttempts c) \<and>
   reconnectAttempts (fst (ws_run es WSClient_new)) \<le> 50 \<and>
   reconnectAttempts (fst (ws_on_open c)) = 0 \<and>
   isIntentionallyClosed (fst (ws_close c)) \<and>
   filter is_schedule (snd (ws_run es (fst (ws_close c)))) = [] \<and>
   (isIntentionallyClosed c \<longrightarrow> filter is_schedule (snd (ws_on_close c)) = [])"
proof -
  have a: "reconnectAttempts (fst (ws_run es WSClient_new)) \<le> 50"
    using ws_run_bound [of WSClient_new es] by (simp add: WSClient_new_def maxReconnects_def)
  have b: "isIntentionallyClosed (fst (ws_close c))"
    by (simp add: ws_close_def)
  have d: "filter is_schedule (snd (ws_run es (fst (ws_close c)))) = []"
    using ws_run_intentional [OF b] by simp
  have e: "isIntentionallyClosed c \<longrightarrow> filter is_schedule (snd (ws_on_close c)) = []"
    using ws_step_intentional [of c SocketClosed] by simp
  have f: "reconnectAttempts (fst (ws_on_open c)) = 0"
    by (simp add: ws_on_open_def)
  have g: "\<not> isIntentionallyClosed c \<and> reconnectAttempts c < 50 \<longrightarrow>
      reconnectAttempts (fst (ws_on_close c)) = reconnectAttempts c + 1 \<and>
      snd (ws_on_close c) = [ScheduleConnect (min ((reconnectAttempts c + 1) * 1000) 10000)]"
    by (simp add: ws_on_close_def Let_def maxReconnects_def mult.commute)
  have h: "\<not> isIntentionallyClosed c \<and> 50 \<le> reconnectAttempts c \<and> closeHandler c \<longrightarrow>
      snd (ws_on_close c) = [CloseHandlerCalled] \<and>
      reconnectAttempts (fst (ws_on_close c)) = reconnectAttempts c"
    by (simp add: ws_on_close_def Let_def maxReconnects_def call_closeHandler_def)
  have i: "\<not> isIntentionallyClosed c \<and> 50 \<le> reconnectAttempts c \<longrightarrow>
      filter is_schedule (snd (ws_on_close c)) = [] \<and>
      snd (ws_on_close c) = (if closeHandler c then [CloseHandlerCalled] else []) \<and>
      reconnectAttempts (fst (ws_on_close c)) = reconnectAttempts c"
    by (simp add: ws_on_close_def Let_def maxReconnects_def call_closeHandler_def)
  from a b d e f g h i show ?thesis by blast
qed

theorem reconnect_state_machine_witness:
  "\<not> isIntentionallyClosed (WSClient_new\<lparr>reconnectAttempts := 2\<rparr>) \<and>
   reconnectAttempts (WSClient_new\<lparr>reconnectAttempts := 2\<rparr>) < 50 \<and>
   snd (ws_on_close (WSClient_new\<lparr>reconnectAttempts := 2\<rparr>)) = [ScheduleConnect 3000] \<and>
   snd (ws_on_close (WSClient_new\<lparr>reconnectAttempts := 20\<rparr>)) = [ScheduleConnect 10000] \<and>
   snd (ws_on_close (WSClient_new\<lparr>reconnectAttempts := 50, closeHandler := True\<rparr>)) =
     [CloseHandlerCalled] \<and>
   \<not> closeHandler (WSClient_new\<lparr>reconnectAttempts := 50\<rparr>) \<and>
   snd (ws_on_close (WSClient_new\<lparr>reconnectAttempts := 50\<rparr>)) = [] \<and>
   isIntentionallyClosed (fst (ws_close WSClient_new)) \<and>
   filter is_schedule (snd (ws_on_close (fst (ws_close WSClient_new)))) = []"
proof -
  let ?c1 = "WSClient_new\<lparr>reconnectAttempts := 2\<rparr>"
  let ?c2 = "WSClient_new\<lparr>reconnectAttempts := 20\<rparr>"
  let ?c3 = "WSClient_new\<lparr>reconnectAttempts := 50, closeHandler := True\<rparr>"
  let ?c4 = "fst (ws_close WSClient_new)"
  have h1: "\<not> isIntentionallyClosed ?c1 \<and> reconnectAttempts ?c1 < 50"
    by (simp add: WSClient_new_def)
  have h2: "\<not> isIntentionallyClosed ?c2 \<and> reconnectAttempts ?c2 < 50"
    by (simp add: WSClient_new_def)
  have h3: "\<not> isIntentionallyClosed ?c3 \<and> 50 \<le> reconnectAttempts ?c3 \<and> closeHandler ?c3"
    by (simp add: WSClient_new_def)
  have h4: "isIntentionallyClosed ?c4"
    by (simp add: ws_close_def)
  have a: "snd (ws_on_close ?c1) = [ScheduleConnect (min ((reconnectAttempts ?c1 + 1) * 1000) 10000)]"
    using reconnect_state_machine [where c = ?c1] h1 by blast
  have b: "snd (ws_on_close ?c2) = [ScheduleConnect (min ((reconnectAttempts ?c2 + 1) * 1000) 10000)]"
    using reconnect_state_machine [where c = ?c2] h2 by blast
  have c: "snd (ws_on_close ?c3) = [CloseHandlerCalled]"
    using reconnect_state_machine [where c = ?c3] h3 by blast
  have d: "filter is_schedule (snd (ws_on_close ?c4)) = []"
    using reconnect_state_machine [where c = ?c4] h4 by blast
  let ?c5 = "WSClient_new\<lparr>reconnectAttempts := 50\<rparr>"
  have h5: "\<not> isIntentionallyClosed ?c5 \<and> 50 \<le> reconnectAttempts ?c5"
    by (simp add: WSClient_new_def)
  have n5: "\<not> closeHandler ?c5"
    by (simp add: WSClient_new_def)
  have e: "snd (ws_on_close ?c5) = (if closeHandler ?c5 then [CloseHandlerCalled] else [])"
    using reconnect_state_machine [where c = ?c5] h5 by blast
  have e': "snd (ws_on_close ?c5) = []"
    using e n5 by simp
  have a': "snd (ws_on_close ?c1) = [ScheduleConnect 3000]"
    using a by (simp add: WSClient_new_def)
  have b': "snd (ws_on_close ?c2) = [ScheduleConnect 10000]"
    using b by (simp add: WSClient_new_def)
  from h1 a' b' c d h4 n5 e' show ?thesis by blast
qed

section \<open>Properties of the remote driver\<close>

text \<open>
  Claim C8. Let the first call of \<open>runQuery\<close> throw. If a session was being resumed
  (\<open>startFrom\<close> is truthy: not null, and not the empty string, which the source's test
  treats as null) and the abort signal is not set, \<open>runQuery\<close> is called exactly once
  more, with no resume target and the same first message, and \<open>claudeRemote\<close> returns
  normally whether that second call throws or not. Otherwise \<open>runQuery\<close> is not called
  again.
\<close>

theorem resume_failure_retries_once_fresh:
  assumes "firstNextMessage env = Some firstMessage"
    and "firstQuery env = QueryThrows"
    and "startFrom = resolve_startFrom opts env"
  shows "(truthy startFrom \<and> \<not> aborted env \<longrightarrow>
            runQueryCalls (claudeRemote opts env) =
              [(startFrom, firstMessage), (None, firstMessage)] \<and>
            returned (claudeRemote opts env) =
              Inr (case secondQuery env of QueryReturns \<Rightarrow> None | QueryThrows \<Rightarrow> startFrom)) \<and>
         (\<not> truthy startFrom \<or> aborted env \<longrightarrow>
            runQueryCalls (claudeRemote opts env) = [(startFrom, firstMessage)] \<and>
            returned (claudeRemote opts env) = Inr startFrom)"
  using assms
  by (auto simp: claudeRemote_def runQuery_def Let_def split: query_outcome.splits)

theorem resume_failure_retries_once_fresh_witness:
  "runQueryCalls
     (claudeRemote \<lparr>sessionId = Some ''abc-1'', claudeArgs = None\<rparr>
        \<lparr>sessionExists = (\<lambda>sid. True),
         firstNextMessage = Some \<lparr>message = ''hi'', images = None\<rparr>,
         firstQuery = QueryThrows, secondQuery = QueryThrows, aborted = False\<rparr>) =
     [(Some ''abc-1'', \<lparr>message = ''hi'', images = None\<rparr>),
      (None, \<lparr>message = ''hi'', images = None\<rparr>)] \<and>
   returned
     (claudeRemote \<lparr>sessionId = Some ''abc-1'', claudeArgs = None\<rparr>
        \<lparr>sessionExists = (\<lambda>sid. True),
         firstNextMessage = Some \<lparr>message = ''hi'', images = None\<rparr>,
         firstQuery = QueryThrows, secondQuery = QueryThrows, aborted = False\<rparr>) =
     Inr (Some ''abc-1'') \<and>
   runQueryCalls
     (claudeRemote \<lparr>sessionId = None, claudeArgs = None\<rparr>
        \<lparr>sessionExists = (\<lambda>sid. True),
         firstNextMessage = Some \<lparr>message = ''hi'', images = None\<rparr>,
         firstQuery = QueryThrows, secondQuery = QueryReturns, aborted = False\<rparr>) =
     [(None, \<lparr>message = ''hi'', images = None\<rparr>)]"
proof -
  let ?env = "\<lparr>sessionExists = (\<lambda>sid. True),
         firstNextMessage = Some \<lparr>message = ''hi'', images = None\<rparr>,
         firstQuery = QueryThrows, secondQuery = QueryThrows, aborted = False\<rparr>"
  let ?env2 = "\<lparr>sessionExists = (\<lambda>sid. True),
         firstNextMessage = Some \<lparr>message = ''hi'', images = None\<rparr>,
         firstQuery = QueryThrows, secondQuery = QueryReturns, aborted = False\<rparr>"
  let ?opts = "\<lparr>sessionId = Some ''abc-1'', claudeArgs = None\<rparr>"
  let ?opts2 = "\<lparr>sessionId = None, claudeArgs = None\<rparr>"
  have s: "resolve_startFrom ?opts ?env = Some ''abc-1''"
    by (simp add: resolve_startFrom_def)
  have s2: "resolve_startFrom ?opts2 ?env2 = None"
    by (simp add: resolve_startFrom_def)
  have t: "truthy (Some ''abc-1'') \<and> \<not> aborted ?env"
    by (simp add: truthy_def)
  have t2: "\<not> truthy None \<or> aborted ?env2"
    by (simp add: truthy_def)
  have a: "runQueryCalls (claudeRemote ?opts ?env) =
       [(Some ''abc-1'', \<lparr>message = ''hi'', images = None\<rparr>),
        (None, \<lparr>message = ''hi'', images = None\<rparr>)] \<and>
     returned (claudeRemote ?opts ?env) =
       Inr (case secondQuery ?env of QueryReturns \<Rightarrow> None | QueryThrows \<Rightarrow> Some ''abc-1'')"
    using resume_failure_retries_once_fresh
      [where env = ?env and opts = ?opts and startFrom = "Some ''abc-1''"
         and firstMessage = "\<lparr>message = ''hi'', images = None\<rparr>"] s t
    by simp
  have b: "runQueryCalls (claudeRemote ?opts2 ?env2) = [(None, \<lparr>message = ''hi'', images = None\<rparr>)]"
    using resume_failure_retries_once_fresh
      [where env = ?env2 and opts = ?opts2 and startFrom = None
         and firstMessage = "\<lparr>message = ''hi'', images = None\<rparr>"] s2 t2
    by simp
  from a b show ?thesis by simp
qed

section \<open>Properties of the hook receiver\<close>














text \<open>A body that parses to null makes the handler throw, and is answered 500.\<close>

lemma null_body_answered_500:
  "status (handle_request quiet_options
     \<lparr>req_method = ''POST'', req_url = ''/hook'', req_body = BodyComplete JsonNull,
      timerFired = False\<rparr>) = Some (500, ''error'')"
  by (simp add: handle_request_def try_block_def call_hooks_def writeHead_unless_sent_def
      headersSent_def)

end
